theory Spec2Isabelle
  imports Complex_Main "HOL-Library.Sublist" "HOL-Library.Monad_Syntax"
begin

section \<open>Decoded records\<close>

text \<open>
  The script \<open>scripts/generate-summary.py\<close> works on the values that \<open>json.loads\<close>
  returns. A decoded value is \<open>None\<close>, a \<open>bool\<close>, an \<open>int\<close>, a \<open>float\<close>, a \<open>str\<close>,
  a \<open>list\<close> or a \<open>dict\<close> with \<open>str\<close> keys. A \<open>dict\<close> is written as an association
  list read with \<open>map_of\<close>: the first pair of a key is its entry.

  A \<open>char\<close> stands for one code point of a Python \<open>str\<close>, so texts whose code points
  lie below 256 are modelled with Python's own \<open>len\<close>, slicing, \<open>lower\<close> and \<open>strip\<close>.
\<close>

datatype pyfloat = Finite rat | PosInf | NegInf | NaN

datatype json =
    JNull
  | JBool bool
  | JInt int
  | JFloat pyfloat
  | JStr string
  | JList "json list"
  | JObj "(string \<times> json) list"

text \<open>\<open>d.get(k)\<close> and \<open>d.get(k, default)\<close> on a \<open>dict\<close>.\<close>

definition py_get_default :: "(string \<times> json) list \<Rightarrow> string \<Rightarrow> json \<Rightarrow> json" where
  "py_get_default d k dflt = (case map_of d k of None \<Rightarrow> dflt | Some v \<Rightarrow> v)"

definition py_get :: "(string \<times> json) list \<Rightarrow> string \<Rightarrow> json" where
  "py_get d k = py_get_default d k JNull"

text \<open>Python's truth value of a decoded value, as \<open>if event.get('is_error')\<close> reads it.\<close>

fun truthy :: "json \<Rightarrow> bool" where
  "truthy JNull = False"
| "truthy (JBool b) = b"
| "truthy (JInt i) = (i \<noteq> 0)"
| "truthy (JFloat f) = (f \<noteq> Finite 0)"
| "truthy (JStr s) = (s \<noteq> [])"
| "truthy (JList xs) = (xs \<noteq> [])"
| "truthy (JObj kvs) = (kvs \<noteq> [])"

section \<open>The aggregate\<close>

text \<open>
  \<open>extract_summary_data\<close> builds a \<open>dict\<close> of five lists. The two message lists
  receive whatever value the record carries (\<open>item.get('text', '')\<close> is appended
  unchecked), so their elements are decoded values.
\<close>

record tool_use =
  name :: json
  input :: json

record tool_result =
  tool_use_id :: json
  content :: json

record summary_data =
  user_messages :: "json list"
  assistant_messages :: "json list"
  tool_uses :: "tool_use list"
  tool_results :: "tool_result list"
  errors :: "tool_result list"

definition empty_data :: summary_data where
  "empty_data = \<lparr>user_messages = [], assistant_messages = [], tool_uses = [],
     tool_results = [], errors = []\<rparr>"

section \<open>\<open>extract_summary_data\<close>\<close>

text \<open>The body of \<open>for item in content\<close> in the user branch (lines 119-123).\<close>

fun user_item :: "json \<Rightarrow> summary_data \<Rightarrow> summary_data" where
  "user_item (JObj item) d =
     (if py_get item ''type'' = JStr ''text''
      then d\<lparr>user_messages := user_messages d @ [py_get_default item ''text'' (JStr [])]\<rparr>
      else d)"
| "user_item (JStr s) d = d\<lparr>user_messages := user_messages d @ [JStr s]\<rparr>"
| "user_item _ d = d"

text \<open>The body of \<open>for item in content\<close> in the assistant branch (lines 130-138).\<close>

fun assistant_item :: "json \<Rightarrow> summary_data \<Rightarrow> summary_data" where
  "assistant_item (JObj item) d =
     (if py_get item ''type'' = JStr ''text''
      then d\<lparr>assistant_messages :=
              assistant_messages d @ [py_get_default item ''text'' (JStr [])]\<rparr>
      else if py_get item ''type'' = JStr ''tool_use''
      then d\<lparr>tool_uses :=
              tool_uses d @ [\<lparr>name = py_get item ''name'', input = py_get item ''input''\<rparr>]\<rparr>
      else d)"
| "assistant_item _ d = d"

fun for_items :: "(json \<Rightarrow> summary_data \<Rightarrow> summary_data) \<Rightarrow> json list \<Rightarrow> summary_data
    \<Rightarrow> summary_data" where
  "for_items body [] d = d"
| "for_items body (item # items) d = for_items body items (body item d)"

text \<open>The role branch (lines 115-138), on the role and content read from \<open>msg\<close>.\<close>

definition role_branch :: "json \<Rightarrow> json \<Rightarrow> summary_data \<Rightarrow> summary_data" where
  "role_branch role cont d =
     (if role = JStr ''user'' then
        (case cont of
           JStr s \<Rightarrow> d\<lparr>user_messages := user_messages d @ [cont]\<rparr>
         | JList items \<Rightarrow> for_items user_item items d
         | _ \<Rightarrow> d)
      else if role = JStr ''assistant'' then
        (case cont of
           JStr s \<Rightarrow> d\<lparr>assistant_messages := assistant_messages d @ [cont]\<rparr>
         | JList items \<Rightarrow> for_items assistant_item items d
         | _ \<Rightarrow> d)
      else d)"

text \<open>The tool-result part (lines 141-148), on the top-level record.\<close>

definition tool_result_part :: "(string \<times> json) list \<Rightarrow> summary_data \<Rightarrow> summary_data" where
  "tool_result_part event d =
     (if py_get event ''type'' = JStr ''tool_result'' then
        (let result = \<lparr>tool_use_id = py_get event ''tool_use_id'',
                        content = py_get event ''content''\<rparr>;
             d1 = (if truthy (py_get event ''is_error'')
                   then d\<lparr>errors := errors d @ [result]\<rparr> else d)
         in d1\<lparr>tool_results := tool_results d1 @ [result]\<rparr>)
      else d)"

text \<open>
  One pass of \<open>for event in events\<close>. A record that is not a \<open>dict\<close> is passed over
  (\<open>continue\<close>). \<open>msg = event.get('message', event)\<close> is the value of \<open>message\<close> when the
  key is there, whatever its shape, and \<open>msg.get('role')\<close> raises \<open>AttributeError\<close>
  when that value is not a \<open>dict\<close>; the exception is not caught, so the run ends
  without a result: \<open>None\<close>.
\<close>

definition process_event :: "json \<Rightarrow> summary_data \<Rightarrow> summary_data option" where
  "process_event event d =
     (case event of
        JObj ev \<Rightarrow>
          (case py_get_default ev ''message'' (JObj ev) of
             JObj msg \<Rightarrow>
               Some (tool_result_part ev
                 (role_branch (py_get msg ''role'') (py_get_default msg ''content'' (JStr [])) d))
           | _ \<Rightarrow> None)
      | _ \<Rightarrow> Some d)"

fun for_events :: "json list \<Rightarrow> summary_data \<Rightarrow> summary_data option" where
  "for_events [] d = Some d"
| "for_events (event # events) d =
     (case process_event event d of None \<Rightarrow> None | Some d' \<Rightarrow> for_events events d')"

definition extract_summary_data :: "json list \<Rightarrow> summary_data option" where
  "extract_summary_data events = for_events events empty_data"

section \<open>\<open>parse_session_log\<close>\<close>










section \<open>\<open>generate_current_state\<close>\<close>

text \<open>\<open>str\<close> of a length: the decimal numeral, most significant digit first.\<close>

definition digit_char :: "nat \<Rightarrow> char" where
  "digit_char n = char_of (48 + n)"

fun str_nat :: "nat \<Rightarrow> string" where
  "str_nat n = (if n < 10 then [digit_char n] else str_nat (n div 10) @ [digit_char (n mod 10)])"

declare str_nat.simps [simp del]

text \<open>\<open>recent_work\<close> is computed by the source and never read; it is left out.\<close>

definition generate_current_state :: "summary_data \<Rightarrow> string" where
  "generate_current_state d =
     (let tool_count = length (tool_uses d);
          error_count = length (errors d);
          state = ''**State:** Session with '' @ str_nat tool_count @ '' actions taken'';
          state = (if error_count > 0
                   then state @ '' | **Errors:** '' @ str_nat error_count @ '' encountered''
                   else state @ '' | **Errors:** None'')
      in state @ '' | **Messages:** '' @ str_nat (length (user_messages d)) @ '' exchanges'')"

section \<open>\<open>generate_decisions_section\<close>\<close>

text \<open>
  \<open>str.lower\<close> on code points below 256: the letters A-Z and the Latin-1 capitals
  192-222 other than 215 move up by 32.
\<close>

definition lower_char :: "char \<Rightarrow> char" where
  "lower_char c =
     (let n = (of_char c :: nat)
      in if (65 \<le> n \<and> n \<le> 90) \<or> (192 \<le> n \<and> n \<le> 222 \<and> n \<noteq> 215)
         then char_of (n + 32) else c)"

definition lower :: "string \<Rightarrow> string" where
  "lower s = map lower_char s"

text \<open>\<open>sub in s\<close> on two \<open>str\<close>: a search for \<open>sub\<close> at every position of \<open>s\<close>.\<close>

fun py_in :: "string \<Rightarrow> string \<Rightarrow> bool" where
  "py_in sub [] = (sub = [])"
| "py_in sub (c # cs) = (prefix sub (c # cs) \<or> py_in sub cs)"

definition decision_keywords :: "string list" where
  "decision_keywords = [''chose'', ''decided'', ''selected'', ''using'', ''rejected'']"

definition newline :: string where
  "newline = [CHR 0x0A]"

fun join :: "string \<Rightarrow> string list \<Rightarrow> string" where
  "join sep [] = []"
| "join sep [x] = x"
| "join sep (x # y # ys) = x @ sep @ join sep (y # ys)"

text \<open>
  The loop over \<open>data['assistant_messages']\<close>. \<open>msg.lower()\<close> raises
  \<open>AttributeError\<close> on an element that is not a \<open>str\<close>.
\<close>

fun for_msgs :: "json list \<Rightarrow> string list \<Rightarrow> string list option" where
  "for_msgs [] decisions = Some decisions"
| "for_msgs (JStr msg # msgs) decisions =
     (if list_ex (\<lambda>keyword. py_in keyword (lower msg)) decision_keywords
      then (let snippet = (if length msg > 200 then take 200 msg @ ''...'' else msg)
            in for_msgs msgs (decisions @ [''- '' @ snippet]))
      else for_msgs msgs decisions)"
| "for_msgs (_ # msgs) decisions = None"

definition generate_decisions_section :: "summary_data \<Rightarrow> string option" where
  "generate_decisions_section d =
     (case for_msgs (assistant_messages d) [] of
        None \<Rightarrow> None
      | Some decisions \<Rightarrow>
          Some (join newline
            (if decisions = [] then [''- No explicit decisions recorded in this session'']
             else decisions)))"

section \<open>\<open>generate_narrative_section\<close>\<close>

text \<open>
  The f-string \<open>f"**User:** {x}"\<close> inserts a \<open>str\<close> as it is and any other value
  through Python's \<open>str()\<close>. That library function is the parameter \<open>str_of\<close>.
\<close>

fun py_format :: "(json \<Rightarrow> string) \<Rightarrow> json \<Rightarrow> string" where
  "py_format str_of (JStr s) = s"
| "py_format str_of v = str_of v"

text \<open>
  Lines 202-206 on one assistant message. \<open>len(msg)\<close> raises \<open>TypeError\<close> on
  \<open>None\<close>, a \<open>bool\<close>, an \<open>int\<close> and a \<open>float\<close>. On a \<open>list\<close> or a \<open>dict\<close> it is the
  number of elements or keys, and beyond 500 of them \<open>msg[:500] + "..."\<close> raises.
\<close>

fun assistant_turn :: "(json \<Rightarrow> string) \<Rightarrow> json \<Rightarrow> string option" where
  "assistant_turn str_of (JStr msg) =
     Some (''**Assistant:** '' @ (if length msg > 500 then take 500 msg @ ''...'' else msg))"
| "assistant_turn str_of (JList xs) =
     (if length xs > 500 then None else Some (''**Assistant:** '' @ str_of (JList xs)))"
| "assistant_turn str_of (JObj kvs) =
     (if length (remdups (map fst kvs)) > 500 then None
      else Some (''**Assistant:** '' @ str_of (JObj kvs)))"
| "assistant_turn str_of _ = None"

function narrative_loop :: "(json \<Rightarrow> string) \<Rightarrow> summary_data \<Rightarrow> nat \<Rightarrow> nat \<Rightarrow> string list
    \<Rightarrow> string list option" where
  "narrative_loop str_of d user_idx assistant_idx narrative =
     (if user_idx < length (user_messages d) \<or> assistant_idx < length (assistant_messages d)
      then
        (let narrative1 =
               (if user_idx < length (user_messages d)
                then narrative @ [''**User:** '' @ py_format str_of (user_messages d ! user_idx)]
                else narrative);
             user_idx1 = (if user_idx < length (user_messages d) then user_idx + 1 else user_idx)
         in if assistant_idx < length (assistant_messages d) then
              (case assistant_turn str_of (assistant_messages d ! assistant_idx) of
                 None \<Rightarrow> None
               | Some line \<Rightarrow>
                   narrative_loop str_of d user_idx1 (assistant_idx + 1) (narrative1 @ [line, []]))
            else narrative_loop str_of d user_idx1 assistant_idx (narrative1 @ [[]]))
      else Some narrative)"
  by pat_completeness auto
termination
  by (relation "measure (\<lambda>(str_of, d, user_idx, assistant_idx, narrative).
        (length (user_messages d) - user_idx) + (length (assistant_messages d) - assistant_idx))")
     auto

declare narrative_loop.simps [simp del]

definition generate_narrative_section :: "(json \<Rightarrow> string) \<Rightarrow> summary_data \<Rightarrow> string option" where
  "generate_narrative_section str_of d =
     (case narrative_loop str_of d 0 0 [] of
        None \<Rightarrow> None
      | Some narrative \<Rightarrow> Some (join newline narrative))"

section \<open>\<open>generate_markdown_summary\<close>\<close>

text \<open>
  The two icons of the template are code points above 255; they are written as the
  bytes the source file holds for them. They occur only inside the fixed text
  between the sections.
\<close>

definition icon_decisions :: string where
  "icon_decisions = [CHR 0xC4, CHR 0x9F, CHR 0xC5, CHR 0xB8, CHR 0xE2, CHR 0x80, CHR 0x9C,
     CHR 0xE2, CHR 0x80, CHR 0xB9]"

definition icon_narrative :: string where
  "icon_narrative = [CHR 0xC4, CHR 0x9F, CHR 0xC5, CHR 0xB8, CHR 0xE2, CHR 0x80, CHR 0x9C,
     CHR 0xE2, CHR 0x80, CHR 0x93]"

text \<open>The f-string of lines 220-242, with its four substitutions.\<close>

definition markdown_template :: "string \<Rightarrow> string \<Rightarrow> string \<Rightarrow> string \<Rightarrow> string" where
  "markdown_template timestamp current_state decisions narrative =
     ''# Session Summary: '' @ timestamp @ ''\<newline>''
     @ ''\<newline>''
     @ ''<!-- Quick scan -->\<newline>''
     @ current_state @ ''\<newline>''
     @ ''\<newline>''
     @ ''<details>\<newline>''
     @ ''<summary>'' @ icon_decisions @ '' Key Decisions (click to expand)</summary>\<newline>''
     @ ''\<newline>''
     @ decisions @ ''\<newline>''
     @ ''\<newline>''
     @ ''</details>\<newline>''
     @ ''\<newline>''
     @ ''<details>\<newline>''
     @ ''<summary>'' @ icon_narrative @ '' Full Narrative (click for details)</summary>\<newline>''
     @ ''\<newline>''
     @ narrative @ ''\<newline>''
     @ ''\<newline>''
     @ ''</details>\<newline>''
     @ ''\<newline>''
     @ ''---\<newline>''
     @ ''\<newline>''
     @ ''*Generated automatically by session-summary from Claude Code session logs*\<newline>''"

definition generate_markdown_summary :: "(json \<Rightarrow> string) \<Rightarrow> summary_data \<Rightarrow> string
    \<Rightarrow> string option" where
  "generate_markdown_summary str_of d timestamp =
     (let current_state = generate_current_state d in
      case generate_decisions_section d of
        None \<Rightarrow> None
      | Some decisions \<Rightarrow>
          (case generate_narrative_section str_of d of
             None \<Rightarrow> None
           | Some narrative \<Rightarrow>
               Some (markdown_template timestamp current_state decisions narrative)))"

section \<open>What the specification says of the outputs\<close>

text \<open>
  The definitions of this section follow the specification's words, not the code:
  they are what the outputs of the code are compared with.
\<close>

subsection \<open>Reading the status line back\<close>

definition is_digit :: "char \<Rightarrow> bool" where
  "is_digit c = (48 \<le> (of_char c :: nat) \<and> (of_char c :: nat) \<le> 57)"

definition digit_val :: "char \<Rightarrow> nat" where
  "digit_val c = of_char c - 48"

definition read_nat :: "string \<Rightarrow> nat" where
  "read_nat s = foldl (\<lambda>a c. 10 * a + digit_val c) 0 s"

definition read_count :: "string \<Rightarrow> (nat \<times> string) option" where
  "read_count s =
     (if takeWhile is_digit s = [] then None
      else Some (read_nat (takeWhile is_digit s), dropWhile is_digit s))"

definition strip_prefix :: "string \<Rightarrow> string \<Rightarrow> string option" where
  "strip_prefix p s = (if prefix p s then Some (drop (length p) s) else None)"

definition strip_suffix :: "string \<Rightarrow> string \<Rightarrow> string option" where
  "strip_suffix q s = (if suffix q s then Some (take (length s - length q) s) else None)"

text \<open>
  The three counts a status line reports: the actions taken, the errors (\<open>None\<close> for
  the word None) and the exchanges.
\<close>

record status_counts =
  actions_taken :: nat
  errors_encountered :: "nat option"
  exchanges :: nat

definition read_errors :: "string \<Rightarrow> (nat option \<times> string) option" where
  "read_errors s =
     (if prefix ''None'' s then Some (None, drop 4 s)
      else do {
        (e, r) \<leftarrow> read_count s;
        r' \<leftarrow> strip_prefix '' encountered'' r;
        Some (Some e, r')
      })"

definition spec_read_status :: "string \<Rightarrow> status_counts option" where
  "spec_read_status line =
     do {
       r1 \<leftarrow> strip_prefix ''**State:** Session with '' line;
       (a, r2) \<leftarrow> read_count r1;
       r3 \<leftarrow> strip_prefix '' actions taken | **Errors:** '' r2;
       (e, r4) \<leftarrow> read_errors r3;
       r5 \<leftarrow> strip_prefix '' | **Messages:** '' r4;
       (m, r6) \<leftarrow> read_count r5;
       if r6 = '' exchanges''
       then Some \<lparr>actions_taken = a, errors_encountered = e, exchanges = m\<rparr>
       else None
     }"

subsection \<open>The decision list\<close>

text \<open>
  A message is a decision when one of the keywords is a contiguous part of its
  lower-cased text. Each decision is listed once, in the order of the messages, cut to
  200 characters with the marker \<open>...\<close> when it is longer.
\<close>

definition spec_is_decision :: "string \<Rightarrow> bool" where
  "spec_is_decision msg = (\<exists>keyword \<in> set decision_keywords. sublist keyword (lower msg))"

definition spec_truncate :: "nat \<Rightarrow> string \<Rightarrow> string" where
  "spec_truncate n msg = (if length msg > n then take n msg @ ''...'' else msg)"

definition spec_decision_list :: "string list \<Rightarrow> string list" where
  "spec_decision_list msgs =
     (if filter spec_is_decision msgs = []
      then [''- No explicit decisions recorded in this session'']
      else map (\<lambda>msg. ''- '' @ spec_truncate 200 msg) (filter spec_is_decision msgs))"

subsection \<open>The narrative\<close>

text \<open>
  The round-robin merge by position: the next user message if any, the next assistant
  message if any, a separator, until both lists are used up.
\<close>

fun spec_round_robin :: "string list \<Rightarrow> string list \<Rightarrow> string list" where
  "spec_round_robin [] [] = []"
| "spec_round_robin (u # us) [] = (''**User:** '' @ u) # [] # spec_round_robin us []"
| "spec_round_robin [] (a # as) =
     (''**Assistant:** '' @ spec_truncate 500 a) # [] # spec_round_robin [] as"
| "spec_round_robin (u # us) (a # as) =
     (''**User:** '' @ u) # (''**Assistant:** '' @ spec_truncate 500 a) # []
       # spec_round_robin us as"

definition is_turn_line :: "string \<Rightarrow> bool" where
  "is_turn_line l = (prefix ''**User:** '' l \<or> prefix ''**Assistant:** '' l)"

definition is_separator_line :: "string \<Rightarrow> bool" where
  "is_separator_line l = (l = [])"

subsection \<open>Reading the sections of a document back\<close>

text \<open>The fixed text of the template before, between and after its four substitutions.\<close>

definition head_mark :: string where
  "head_mark = ''# Session Summary: ''"

definition state_mark :: string where
  "state_mark = ''\<newline>\<newline><!-- Quick scan -->\<newline>''"

definition decisions_mark :: string where
  "decisions_mark = ''\<newline>\<newline><details>\<newline><summary>'' @ icon_decisions
     @ '' Key Decisions (click to expand)</summary>\<newline>\<newline>''"

definition narrative_mark :: string where
  "narrative_mark = ''\<newline>\<newline></details>\<newline>\<newline><details>\<newline><summary>'' @ icon_narrative
     @ '' Full Narrative (click for details)</summary>\<newline>\<newline>''"

definition footer_mark :: string where
  "footer_mark = ''\<newline>\<newline></details>\<newline>\<newline>---\<newline>\<newline>''
     @ ''*Generated automatically by session-summary from Claude Code session logs*\<newline>''"

text \<open>The text before and after the first place where \<open>sep\<close> occurs.\<close>

fun split_first :: "string \<Rightarrow> string \<Rightarrow> (string \<times> string) option" where
  "split_first sep [] = (if sep = [] then Some ([], []) else None)"
| "split_first sep (c # cs) =
     (if prefix sep (c # cs) then Some ([], drop (length sep) (c # cs))
      else (case split_first sep cs of
              None \<Rightarrow> None
            | Some (before, after) \<Rightarrow> Some (c # before, after)))"

definition spec_reparse :: "string \<Rightarrow> (string \<times> string \<times> string) option" where
  "spec_reparse doc =
     do {
       r0 \<leftarrow> strip_prefix head_mark doc;
       (timestamp, r1) \<leftarrow> split_first state_mark r0;
       (current_state, r2) \<leftarrow> split_first decisions_mark r1;
       (decisions, r3) \<leftarrow> split_first narrative_mark r2;
       narrative \<leftarrow> strip_suffix footer_mark r3;
       Some (current_state, decisions, narrative)
     }"

text \<open>An occurrence of \<open>sep\<close> begins at one of the positions of \<open>x\<close> in \<open>x @ sep\<close>.\<close>

definition begins_inside :: "string \<Rightarrow> string \<Rightarrow> bool" where
  "begins_inside sep x = list_ex (\<lambda>i. prefix sep (drop i (x @ sep))) [0..<length x]"

subsection \<open>Two aggregates with one document\<close>

text \<open>
  The first aggregate has one user message and one assistant message, which quotes
  the boundary between the decision list and the narrative; the second has one user
  message, which quotes the same boundary, and no assistant message.
\<close>

definition overlap_message :: string where
  "overlap_message = ''No explicit decisions recorded in this session'' @ narrative_mark
     @ ''**User:** using''"

definition overlap_first :: summary_data where
  "overlap_first = empty_data\<lparr>user_messages := [JStr ''u''],
     assistant_messages := [JStr overlap_message]\<rparr>"

definition overlap_second :: summary_data where
  "overlap_second = empty_data\<lparr>user_messages :=
     [JStr (''using'' @ narrative_mark @ ''**User:** u\<newline>**Assistant:** '' @ overlap_message)]\<rparr>"

subsection \<open>A decoder for the examples of the parser\<close>


section \<open>The classifier\<close>

subsection \<open>Records that end the run\<close>

text \<open>
  C1. The specification says that the classifier never aborts: the effective message
  is the \<open>message\<close> field only when that field is a mapping, and a record whose
  \<open>message\<close> has another shape is skipped or defaulted. The code takes the
  \<open>message\<close> field whatever its shape and calls \<open>.get\<close> on it. On the one-record
  sequence \<open>[{"message": "hello"}]\<close> the call raises and the run has no result.
\<close>

theorem extract_aborts_on_text_message:
  "extract_summary_data [JObj [(''message'', JStr ''hello'')]] = None"
  by (simp add: extract_summary_data_def process_event_def py_get_default_def)

text \<open>
  C2. The specification says that a bare string inside the content list of an
  assistant message is appended to the assistant-message bucket, as it is for a user
  message. The assistant branch has no case for a bare string: on
  \<open>[{"role": "assistant", "content": ["hello"]}]\<close> every bucket stays empty, while the
  same content under the role \<open>user\<close> reaches the user-message bucket.
\<close>

theorem assistant_plain_text_item_dropped:
  "extract_summary_data
     [JObj [(''role'', JStr ''assistant''), (''content'', JList [JStr ''hello''])]]
   = Some empty_data
   \<and> extract_summary_data
     [JObj [(''role'', JStr ''user''), (''content'', JList [JStr ''hello''])]]
   = Some (empty_data\<lparr>user_messages := [JStr ''hello'']\<rparr>)"
  by (simp add: extract_summary_data_def process_event_def py_get_default_def py_get_def
      role_branch_def tool_result_part_def empty_data_def)

subsection \<open>Errors are tool results\<close>


lemma user_item_tool_buckets:
  "errors (user_item item d) = errors d \<and> tool_results (user_item item d) = tool_results d"
  by (induction item d rule: user_item.induct) simp_all

lemma assistant_item_tool_buckets:
  "errors (assistant_item item d) = errors d
   \<and> tool_results (assistant_item item d) = tool_results d"
  by (induction item d rule: assistant_item.induct) simp_all

lemma for_items_tool_buckets:
  assumes "\<And>item d. errors (body item d) = errors d \<and> tool_results (body item d) = tool_results d"
  shows "errors (for_items body items d) = errors d
    \<and> tool_results (for_items body items d) = tool_results d"
  using assms by (induction items arbitrary: d) simp_all

lemma role_branch_tool_buckets:
  "errors (role_branch role cont d) = errors d
   \<and> tool_results (role_branch role cont d) = tool_results d"
  by (simp add: role_branch_def for_items_tool_buckets user_item_tool_buckets
      assistant_item_tool_buckets split: json.splits)

lemma tool_result_part_subseq:
  "subseq (errors d) (tool_results d) \<Longrightarrow>
   subseq (errors (tool_result_part ev d)) (tool_results (tool_result_part ev d))"
  by (auto simp: tool_result_part_def Let_def intro: list_emb_append_mono subseq_order.order_trans)

lemma process_event_subseq:
  assumes "process_event event d = Some d'" and "subseq (errors d) (tool_results d)"
  shows "subseq (errors d') (tool_results d')"
proof (cases event)
  case (JObj ev)
  with assms(1) obtain msg where
    d': "d' = tool_result_part ev
      (role_branch (py_get msg ''role'') (py_get_default msg ''content'' (JStr [])) d)"
    by (auto simp: process_event_def split: json.splits)
  show ?thesis
    unfolding d' by (rule tool_result_part_subseq) (simp add: role_branch_tool_buckets assms(2))
qed (use assms in \<open>auto simp: process_event_def\<close>)

lemma for_events_subseq:
  "for_events events d = Some d' \<Longrightarrow> subseq (errors d) (tool_results d) \<Longrightarrow>
   subseq (errors d') (tool_results d')"
proof (induction events arbitrary: d)
  case Nil
  then show ?case by simp
next
  case (Cons event events)
  then show ?case
    by (auto split: option.splits dest: process_event_subseq)
qed

text \<open>
  C3. Every descriptor appended to the error bucket is appended to the tool-result
  bucket too: at the end of a run the error bucket is a subsequence of the tool-result
  bucket and no longer than it, and a processed top-level record with
  \<open>type == "tool_result"\<close> and a truthy \<open>is_error\<close> adds its descriptor once to each of
  the two buckets.
\<close>

theorem errors_within_tool_results:
  "(extract_summary_data events = Some d \<longrightarrow>
      subseq (errors d) (tool_results d) \<and> length (errors d) \<le> length (tool_results d))
   \<and> (process_event (JObj ev) d0 = Some d1 \<and> py_get ev ''type'' = JStr ''tool_result''
        \<and> truthy (py_get ev ''is_error'') \<longrightarrow>
      errors d1 = errors d0
          @ [\<lparr>tool_use_id = py_get ev ''tool_use_id'', content = py_get ev ''content''\<rparr>]
      \<and> tool_results d1 = tool_results d0
          @ [\<lparr>tool_use_id = py_get ev ''tool_use_id'', content = py_get ev ''content''\<rparr>])"
proof (intro conjI impI)
  assume run: "extract_summary_data events = Some d"
  have "subseq (errors empty_data) (tool_results empty_data)"
    by (simp add: empty_data_def)
  with run show sub: "subseq (errors d) (tool_results d)"
    unfolding extract_summary_data_def by (rule for_events_subseq)
  then show "length (errors d) \<le> length (tool_results d)"
    by (rule list_emb_length)
next
  assume h: "process_event (JObj ev) d0 = Some d1 \<and> py_get ev ''type'' = JStr ''tool_result''
    \<and> truthy (py_get ev ''is_error'')"
  then obtain msg where
    d1: "d1 = tool_result_part ev
      (role_branch (py_get msg ''role'') (py_get_default msg ''content'' (JStr [])) d0)"
    by (auto simp: process_event_def split: json.splits)
  from h show "errors d1 = errors d0
      @ [\<lparr>tool_use_id = py_get ev ''tool_use_id'', content = py_get ev ''content''\<rparr>]"
    by (simp add: d1 tool_result_part_def Let_def role_branch_tool_buckets)
  from h show "tool_results d1 = tool_results d0
      @ [\<lparr>tool_use_id = py_get ev ''tool_use_id'', content = py_get ev ''content''\<rparr>]"
    by (simp add: d1 tool_result_part_def Let_def role_branch_tool_buckets)
qed

theorem errors_within_tool_results_witness:
  "extract_summary_data
     [JObj [(''type'', JStr ''tool_result''), (''tool_use_id'', JStr ''t1''),
            (''content'', JStr ''boom''), (''is_error'', JBool True)],
      JObj [(''type'', JStr ''tool_result''), (''tool_use_id'', JStr ''t2''),
            (''content'', JStr ''fine'')]]
   = Some \<lparr>user_messages = [], assistant_messages = [], tool_uses = [],
       tool_results = [\<lparr>tool_use_id = JStr ''t1'', content = JStr ''boom''\<rparr>,
                       \<lparr>tool_use_id = JStr ''t2'', content = JStr ''fine''\<rparr>],
       errors = [\<lparr>tool_use_id = JStr ''t1'', content = JStr ''boom''\<rparr>]\<rparr>
   \<and> length [\<lparr>tool_use_id = JStr ''t1'', content = JStr ''boom''\<rparr>] \<le> length
       [\<lparr>tool_use_id = JStr ''t1'', content = JStr ''boom''\<rparr>,
        \<lparr>tool_use_id = JStr ''t2'', content = JStr ''fine''\<rparr>]
   \<and> process_event
       (JObj [(''type'', JStr ''tool_result''), (''tool_use_id'', JStr ''t1''),
              (''content'', JStr ''boom''), (''is_error'', JBool True)]) empty_data
     = Some (empty_data\<lparr>errors := [\<lparr>tool_use_id = JStr ''t1'', content = JStr ''boom''\<rparr>],
          tool_results := [\<lparr>tool_use_id = JStr ''t1'', content = JStr ''boom''\<rparr>]\<rparr>)"
  (is "?run = Some ?d \<and> ?le \<and> ?step = Some ?d1")
proof -
  have run: "?run = Some ?d"
    by (simp add: extract_summary_data_def process_event_def py_get_default_def py_get_def
        role_branch_def tool_result_part_def empty_data_def Let_def)
  have step: "?step = Some ?d1"
    by (simp add: process_event_def py_get_default_def py_get_def
        role_branch_def tool_result_part_def empty_data_def Let_def)
  have ty: "py_get [(''type'', JStr ''tool_result''), (''tool_use_id'', JStr ''t1''),
              (''content'', JStr ''boom''), (''is_error'', JBool True)] ''type'' = JStr ''tool_result''"
    and err: "truthy (py_get [(''type'', JStr ''tool_result''), (''tool_use_id'', JStr ''t1''),
              (''content'', JStr ''boom''), (''is_error'', JBool True)] ''is_error'')"
    by (simp_all add: py_get_def py_get_default_def)
  from errors_within_tool_results [of _ ?d _ empty_data ?d1] run step ty err
  show ?thesis by simp
qed

section \<open>The status line\<close>

lemma digit_char_digit: "n < 10 \<Longrightarrow> is_digit (digit_char n) \<and> digit_val (digit_char n) = n"
  by (simp add: is_digit_def digit_val_def digit_char_def)

lemma read_nat_snoc: "read_nat (xs @ [c]) = 10 * read_nat xs + digit_val c"
  by (simp add: read_nat_def)

lemma read_nat_str_nat: "read_nat (str_nat n) = n"
proof (induction n rule: str_nat.induct)
  case (1 n)
  show ?case
  proof (cases "n < 10")
    case True
    then show ?thesis
      by (subst str_nat.simps) (simp add: read_nat_def digit_char_digit)
  next
    case False
    with "1" have "read_nat (str_nat (n div 10)) = n div 10" by simp
    with False show ?thesis
      by (subst str_nat.simps) (simp add: read_nat_snoc digit_char_digit)
  qed
qed

lemma str_nat_digits: "c \<in> set (str_nat n) \<Longrightarrow> is_digit c"
proof (induction n rule: str_nat.induct)
  case (1 n)
  from "1.prems" show ?case
    by (subst (asm) str_nat.simps) (auto simp: digit_char_digit "1.IH" split: if_splits)
qed

lemma str_nat_not_Nil: "str_nat n \<noteq> []"
  by (subst str_nat.simps) simp

lemma read_count_str_nat:
  assumes "r = [] \<or> \<not> is_digit (hd r)"
  shows "read_count (str_nat n @ r) = Some (n, r)"
proof -
  have tw: "takeWhile is_digit r = []" and dw: "dropWhile is_digit r = r"
    using assms by (cases r; auto)+
  have "takeWhile is_digit (str_nat n @ r) = str_nat n"
    by (simp add: takeWhile_append2 str_nat_digits tw)
  moreover have "dropWhile is_digit (str_nat n @ r) = r"
    by (simp add: dropWhile_append2 str_nat_digits dw)
  ultimately show ?thesis
    by (simp add: read_count_def str_nat_not_Nil read_nat_str_nat)
qed

lemma strip_prefix_append: "strip_prefix p (p @ r) = Some r"
  by (simp add: strip_prefix_def)

lemma str_nat_no_None: "\<not> prefix ''None'' (str_nat n @ r)"
proof -
  obtain c cs where eq: "str_nat n = c # cs"
    using str_nat_not_Nil by (cases "str_nat n") auto
  then have "is_digit c"
    using str_nat_digits [of c n] by simp
  then have "c \<noteq> CHR ''N''"
    by (auto simp: is_digit_def)
  then show ?thesis
    by (simp add: eq)
qed

lemma read_errors_None: "read_errors (''None'' @ r) = Some (None, r)"
  by (simp add: read_errors_def)

lemma read_errors_count:
  "read_errors (str_nat n @ '' encountered'' @ r) = Some (Some n, r)"
proof -
  have "read_count (str_nat n @ '' encountered'' @ r) = Some (n, '' encountered'' @ r)"
    by (rule read_count_str_nat) (simp add: is_digit_def)
  then show ?thesis
    using str_nat_no_None [of n "'' encountered'' @ r"]
    by (simp add: read_errors_def strip_prefix_append del: append.simps)
qed

lemma read_status_generate:
  "spec_read_status (generate_current_state d)
   = Some \<lparr>actions_taken = length (tool_uses d),
        errors_encountered = (if length (errors d) > 0 then Some (length (errors d)) else None),
        exchanges = length (user_messages d)\<rparr>"
proof -
  define tail where "tail = '' | **Messages:** '' @ str_nat (length (user_messages d)) @ '' exchanges''"
  define mid where "mid = (if length (errors d) > 0
      then str_nat (length (errors d)) @ '' encountered'' @ tail else ''None'' @ tail)"
  have gen: "generate_current_state d = ''**State:** Session with '' @
      (str_nat (length (tool_uses d)) @ ('' actions taken | **Errors:** '' @ mid))"
    by (simp add: generate_current_state_def Let_def mid_def tail_def)
  have a: "read_count (str_nat (length (tool_uses d)) @ ('' actions taken | **Errors:** '' @ mid))
      = Some (length (tool_uses d), '' actions taken | **Errors:** '' @ mid)"
    by (rule read_count_str_nat) (simp add: is_digit_def)
  have e: "read_errors mid
      = Some (if length (errors d) > 0 then Some (length (errors d)) else None, tail)"
    by (simp add: mid_def read_errors_None read_errors_count del: append.simps)
  have m: "read_count (str_nat (length (user_messages d)) @ '' exchanges'')
      = Some (length (user_messages d), '' exchanges'')"
    by (rule read_count_str_nat) (simp add: is_digit_def)
  have t: "strip_prefix '' | **Messages:** '' tail
      = Some (str_nat (length (user_messages d)) @ '' exchanges'')"
    unfolding tail_def by (rule strip_prefix_append)
  show ?thesis
    unfolding spec_read_status_def gen
    by (simp only: strip_prefix_append a e t m bind.simps prod.case) simp
qed

lemma status_one_line: "CHR 0x0A \<notin> set (generate_current_state d)"
proof -
  have "CHR 0x0A \<notin> set (str_nat n)" for n
    using str_nat_digits [of "CHR 0x0A" n] by (auto simp: is_digit_def)
  then show ?thesis
    by (simp add: generate_current_state_def Let_def)
qed

text \<open>
  C4. The status generator produces one line, and the three counts read back from it
  are the bucket lengths: the length of the tool-invocation bucket as actions taken,
  the length of the error bucket when it is positive and the word None otherwise,
  and the length of the user-message bucket as exchanges.
\<close>

theorem status_line_reports_bucket_lengths:
  "spec_read_status (generate_current_state d)
   = Some \<lparr>actions_taken = length (tool_uses d),
        errors_encountered = (if length (errors d) > 0 then Some (length (errors d)) else None),
        exchanges = length (user_messages d)\<rparr>
   \<and> CHR 0x0A \<notin> set (generate_current_state d)"
  by (simp only: read_status_generate status_one_line simp_thms)

section \<open>The parser\<close>










section \<open>A user record without content\<close>

lemma for_events_append:
  "for_events (xs @ ys) d = (case for_events xs d of None \<Rightarrow> None | Some d' \<Rightarrow> for_events ys d')"
  by (induction xs arbitrary: d) (auto split: option.splits)

lemma tool_result_part_user_messages:
  "user_messages (tool_result_part ev d) = user_messages d"
  by (simp add: tool_result_part_def Let_def)

text \<open>
  C10. A record that is a mapping, whose effective message (the value the code reads
  \<open>role\<close> and \<open>content\<close> from) has the role \<open>user\<close> and no \<open>content\<close> field, appends
  the empty string to the user-message bucket, and the exchanges count of the status
  line grows by one.
\<close>

theorem user_without_content_counts_as_exchange:
  assumes "extract_summary_data events = Some d"
    and "py_get_default ev ''message'' (JObj ev) = JObj msg"
    and "py_get msg ''role'' = JStr ''user''"
    and "map_of msg ''content'' = None"
  shows "\<exists>d' c c'. extract_summary_data (events @ [JObj ev]) = Some d'
    \<and> user_messages d' = user_messages d @ [JStr []]
    \<and> spec_read_status (generate_current_state d) = Some c
    \<and> spec_read_status (generate_current_state d') = Some c'
    \<and> exchanges c' = exchanges c + 1"
proof -
  define d' where "d' = tool_result_part ev (role_branch (JStr ''user'') (JStr []) d)"
  have step: "process_event (JObj ev) d = Some d'"
    using assms(2-4) by (simp add: process_event_def d'_def py_get_default_def)
  have run: "extract_summary_data (events @ [JObj ev]) = Some d'"
    using assms(1) step by (simp add: extract_summary_data_def for_events_append)
  have um: "user_messages d' = user_messages d @ [JStr []]"
    by (simp add: d'_def tool_result_part_user_messages role_branch_def)
  show ?thesis
    using run um by (simp add: read_status_generate)
qed

theorem user_without_content_counts_as_exchange_witness:
  "\<exists>d'. extract_summary_data ([] @ [JObj [(''role'', JStr ''user'')]]) = Some d'
    \<and> user_messages d' = [JStr []]
    \<and> map_option exchanges (spec_read_status (generate_current_state d')) = Some 1"
proof -
  have h1: "extract_summary_data [] = Some empty_data"
    by (simp add: extract_summary_data_def)
  have h2: "py_get_default [(''role'', JStr ''user'')] ''message'' (JObj [(''role'', JStr ''user'')])
      = JObj [(''role'', JStr ''user'')]"
    by (simp add: py_get_default_def)
  have h3: "py_get [(''role'', JStr ''user'')] ''role'' = JStr ''user''"
    by (simp add: py_get_def py_get_default_def)
  have h4: "map_of [(''role'', JStr ''user'')] ''content'' = None"
    by simp
  from user_without_content_counts_as_exchange [OF h1 h2 h3 h4]
  obtain d' c c' where
    "extract_summary_data ([] @ [JObj [(''role'', JStr ''user'')]]) = Some d'"
    "user_messages d' = user_messages empty_data @ [JStr []]"
    "spec_read_status (generate_current_state empty_data) = Some c"
    "spec_read_status (generate_current_state d') = Some c'"
    "exchanges c' = exchanges c + 1"
    by blast
  moreover have "spec_read_status (generate_current_state empty_data)
      = Some \<lparr>actions_taken = 0, errors_encountered = None, exchanges = 0\<rparr>"
    by (simp add: read_status_generate empty_data_def)
  ultimately show ?thesis
    by (auto simp: empty_data_def)
qed

section \<open>The decision list\<close>

lemma py_in_sublist: "py_in sub s = sublist sub s"
  by (induction s) (simp_all add: sublist_Cons_right)

lemma keyword_test: "list_ex (\<lambda>keyword. py_in keyword (lower msg)) decision_keywords = spec_is_decision msg"
  by (simp add: list_ex_iff py_in_sublist spec_is_decision_def)

lemma for_msgs_texts:
  "for_msgs (map JStr msgs) decisions
   = Some (decisions @ map (\<lambda>msg. ''- '' @ spec_truncate 200 msg) (filter spec_is_decision msgs))"
  by (induction msgs arbitrary: decisions)
     (simp_all add: keyword_test spec_truncate_def Let_def del: append.simps)

text \<open>
  C5. On an aggregate whose assistant messages are texts, the decision generator lists
  exactly the messages that contain one of the five keywords case-insensitively, each
  once, in the order of the bucket, verbatim up to the cut at 200 characters with the
  marker \<open>...\<close>, which is applied exactly when the message is longer than 200; when
  no message matches the output is the single placeholder line.
\<close>

theorem decisions_are_keyword_messages:
  assumes "assistant_messages d = map JStr msgs"
  shows "generate_decisions_section d = Some (join newline (spec_decision_list msgs))"
  using assms by (simp add: generate_decisions_section_def for_msgs_texts spec_decision_list_def)

theorem decisions_are_keyword_messages_witness:
  "generate_decisions_section
     (empty_data\<lparr>assistant_messages :=
        [JStr ''We decided on X'', JStr ''hello'',
         JStr (''using'' @ replicate 200 (CHR ''x''))]\<rparr>)
   = Some (''- We decided on X\<newline>- using'' @ replicate 195 (CHR ''x'') @ ''...'')"
proof -
  let ?msgs = "[''We decided on X'', ''hello'', ''using'' @ replicate 200 (CHR ''x'')]"
  have h: "assistant_messages
      (empty_data\<lparr>assistant_messages :=
        [JStr ''We decided on X'', JStr ''hello'',
         JStr (''using'' @ replicate 200 (CHR ''x''))]\<rparr>) = map JStr ?msgs"
    by simp
  have v: "join newline (spec_decision_list ?msgs)
      = ''- We decided on X\<newline>- using'' @ replicate 195 (CHR ''x'') @ ''...''"
    by code_simp
  from decisions_are_keyword_messages [OF h] v show ?thesis
    by (simp only:)
qed

text \<open>
  C9. Keyword detection is containment, not whole-word matching: a text message whose
  lower-cased form has a keyword anywhere inside it, also inside a longer word such as
  \<open>refusing\<close>, is in the decision list.
\<close>

theorem keyword_inside_word_is_decision:
  assumes "assistant_messages d = map JStr msgs"
    and "msg \<in> set msgs"
    and "keyword \<in> set decision_keywords"
    and "lower msg = before @ keyword @ after"
  shows "\<exists>decisions. for_msgs (assistant_messages d) [] = Some decisions
    \<and> (''- '' @ (if length msg > 200 then take 200 msg @ ''...'' else msg)) \<in> set decisions
    \<and> generate_decisions_section d = Some (join newline decisions)"
proof -
  have "sublist keyword (lower msg)"
    unfolding sublist_def using assms(4) by blast
  with assms(3) have dec: "spec_is_decision msg"
    unfolding spec_is_decision_def by blast
  let ?decisions = "map (\<lambda>msg. ''- '' @ spec_truncate 200 msg) (filter spec_is_decision msgs)"
  have run: "for_msgs (assistant_messages d) [] = Some ?decisions"
    by (simp add: assms(1) for_msgs_texts)
  have mem: "(''- '' @ spec_truncate 200 msg) \<in> set ?decisions"
    using assms(2) dec by (auto simp del: append.simps)
  have ne: "?decisions \<noteq> []"
    using assms(2) dec by (auto simp: filter_empty_conv)
  show ?thesis
    using run mem ne
    by (simp add: generate_decisions_section_def spec_truncate_def del: append.simps)
qed

theorem keyword_inside_word_is_decision_witness:
  "generate_decisions_section (empty_data\<lparr>assistant_messages := [JStr ''I am Refusing'']\<rparr>)
   = Some ''- I am Refusing''"
proof -
  have h1: "assistant_messages (empty_data\<lparr>assistant_messages := [JStr ''I am Refusing'']\<rparr>)
      = map JStr [''I am Refusing'']"
    by simp
  have h2: "''I am Refusing'' \<in> set [''I am Refusing'']"
    by simp
  have h3: "''using'' \<in> set decision_keywords"
    by (simp add: decision_keywords_def)
  have h4: "lower ''I am Refusing'' = ''i am ref'' @ ''using'' @ []"
    by code_simp
  from keyword_inside_word_is_decision [OF h1 h2 h3 h4]
  obtain decisions where
    run: "for_msgs (assistant_messages
        (empty_data\<lparr>assistant_messages := [JStr ''I am Refusing'']\<rparr>)) [] = Some decisions"
    and out: "generate_decisions_section
        (empty_data\<lparr>assistant_messages := [JStr ''I am Refusing'']\<rparr>)
      = Some (join newline decisions)"
    by blast
  have "for_msgs (assistant_messages
        (empty_data\<lparr>assistant_messages := [JStr ''I am Refusing'']\<rparr>)) []
      = Some [''- I am Refusing'']"
    by code_simp
  with run have "decisions = [''- I am Refusing'']"
    by simp
  with out show ?thesis
    by simp
qed

section \<open>The narrative\<close>

lemma turn_line_simps:
  "is_turn_line (''**User:** '' @ x)" "\<not> is_separator_line (''**User:** '' @ x)"
  "is_separator_line []" "\<not> is_turn_line []"
  by (simp_all add: is_turn_line_def is_separator_line_def)

lemma assistant_turn_line:
  "assistant_turn str_of m = Some l \<Longrightarrow> is_turn_line l \<and> \<not> is_separator_line l"
  by (cases m) (auto simp: is_turn_line_def is_separator_line_def split: if_splits)

lemma assistant_turn_text:
  "assistant_turn str_of (JStr a) = Some (''**Assistant:** '' @ spec_truncate 500 a)"
  by (simp add: spec_truncate_def)

lemma narrative_loop_counts:
  "narrative_loop str_of d i j acc = Some lines \<Longrightarrow>
   length (filter is_turn_line lines)
     = length (filter is_turn_line acc)
       + (length (user_messages d) - i) + (length (assistant_messages d) - j)
   \<and> length (filter is_separator_line lines)
     = length (filter is_separator_line acc)
       + max (length (user_messages d) - i) (length (assistant_messages d) - j)"
proof (induction str_of d i j acc rule: narrative_loop.induct)
  case (1 str_of d i j acc)
  let ?U = "user_messages d" and ?A = "assistant_messages d"
  show ?case
  proof (cases "i < length ?U \<or> j < length ?A")
    case False
    with "1.prems" show ?thesis
      by (subst (asm) narrative_loop.simps) simp
  next
    case more: True
    define acc1 where "acc1 = (if i < length ?U
      then acc @ [''**User:** '' @ py_format str_of (?U ! i)] else acc)"
    define i1 where "i1 = (if i < length ?U then i + 1 else i)"
    have turn1: "length (filter is_turn_line acc1) + (length ?U - i1)
        = length (filter is_turn_line acc) + (length ?U - i)"
      by (cases "i < length ?U") (simp_all add: acc1_def i1_def turn_line_simps del: append.simps)
    have sep1: "length (filter is_separator_line acc1) = length (filter is_separator_line acc)"
      by (simp add: acc1_def turn_line_simps del: append.simps)
    have i1: "i1 = i \<and> length ?U \<le> i \<or> i1 = i + 1 \<and> i < length ?U"
      by (simp add: i1_def)
    show ?thesis
    proof (cases "j < length ?A")
      case True
      with more "1.prems" obtain l where
        l: "assistant_turn str_of (?A ! j) = Some l"
        and rest: "narrative_loop str_of d i1 (j + 1) (acc1 @ [l, []]) = Some lines"
        by (subst (asm) narrative_loop.simps)
           (auto simp: Let_def acc1_def i1_def split: option.splits)
      have "length (filter is_turn_line (acc1 @ [l, []])) = length (filter is_turn_line acc1) + 1"
        and "length (filter is_separator_line (acc1 @ [l, []]))
          = length (filter is_separator_line acc1) + 1"
        using assistant_turn_line [OF l] by (simp_all add: turn_line_simps)
      with "1.IH"(1) [OF more acc1_def i1_def True l rest]
      have "length (filter is_turn_line lines)
          = length (filter is_turn_line acc1) + 1 + (length ?U - i1) + (length ?A - (j + 1))"
        and "length (filter is_separator_line lines)
          = length (filter is_separator_line acc1) + 1
            + max (length ?U - i1) (length ?A - (j + 1))"
        by simp_all
      with True turn1 sep1 i1 show ?thesis
        by (intro conjI; arith)
    next
      case False
      with more "1.prems" have
        rest: "narrative_loop str_of d i1 j (acc1 @ [[]]) = Some lines"
        by (subst (asm) narrative_loop.simps) (auto simp: Let_def acc1_def i1_def)
      have "length (filter is_turn_line (acc1 @ [[]])) = length (filter is_turn_line acc1)"
        and "length (filter is_separator_line (acc1 @ [[]]))
          = length (filter is_separator_line acc1) + 1"
        by (simp_all add: turn_line_simps)
      with "1.IH"(2) [OF more acc1_def i1_def False rest]
      have "length (filter is_turn_line lines)
          = length (filter is_turn_line acc1) + (length ?U - i1) + (length ?A - j)"
        and "length (filter is_separator_line lines)
          = length (filter is_separator_line acc1) + 1
            + max (length ?U - i1) (length ?A - j)"
        by simp_all
      with False more turn1 sep1 i1 show ?thesis
        by (intro conjI; arith)
    qed
  qed
qed

lemma narrative_loop_texts:
  "user_messages d = map JStr us \<Longrightarrow> assistant_messages d = map JStr as \<Longrightarrow>
   narrative_loop str_of d i j acc = Some (acc @ spec_round_robin (drop i us) (drop j as))"
proof (induction str_of d i j acc rule: narrative_loop.induct)
  case (1 str_of d i j acc)
  note U = "1.prems"(1) and A = "1.prems"(2)
  show ?case
  proof (cases "i < length us")
    case iu: True
    then have du: "drop i us = us ! i # drop (Suc i) us"
      by (simp add: Cons_nth_drop_Suc)
    show ?thesis
    proof (cases "j < length as")
      case True
      then have da: "drop j as = as ! j # drop (Suc j) as"
        by (simp add: Cons_nth_drop_Suc)
      have "narrative_loop str_of d (i + 1) (j + 1)
          ((acc @ [''**User:** '' @ us ! i]) @ [''**Assistant:** '' @ spec_truncate 500 (as ! j), []])
        = Some (((acc @ [''**User:** '' @ us ! i])
            @ [''**Assistant:** '' @ spec_truncate 500 (as ! j), []])
            @ spec_round_robin (drop (i + 1) us) (drop (j + 1) as))"
        by (rule "1.IH"(1) [OF _ _ _ _ _ U A])
           (use iu True in \<open>simp_all add: U A spec_truncate_def\<close>)
      with iu True show ?thesis
        by (subst narrative_loop.simps)
           (simp add: U A Let_def spec_truncate_def du da del: append.simps)
    next
      case False
      have "narrative_loop str_of d (i + 1) j ((acc @ [''**User:** '' @ us ! i]) @ [[]])
        = Some (((acc @ [''**User:** '' @ us ! i]) @ [[]])
            @ spec_round_robin (drop (i + 1) us) (drop j as))"
        by (rule "1.IH"(2) [OF _ _ _ _ U A]) (use iu False in \<open>simp_all add: U A\<close>)
      with iu False show ?thesis
        by (subst narrative_loop.simps) (simp add: U A Let_def du del: append.simps)
    qed
  next
    case iu: False
    show ?thesis
    proof (cases "j < length as")
      case True
      then have da: "drop j as = as ! j # drop (Suc j) as"
        by (simp add: Cons_nth_drop_Suc)
      have "narrative_loop str_of d i (j + 1)
          (acc @ [''**Assistant:** '' @ spec_truncate 500 (as ! j), []])
        = Some ((acc @ [''**Assistant:** '' @ spec_truncate 500 (as ! j), []])
            @ spec_round_robin (drop i us) (drop (j + 1) as))"
        by (rule "1.IH"(1) [OF _ _ _ _ _ U A])
           (use iu True in \<open>simp_all add: U A spec_truncate_def\<close>)
      with iu True show ?thesis
        by (subst narrative_loop.simps)
           (simp add: U A Let_def spec_truncate_def da del: append.simps)
    next
      case False
      with iu show ?thesis
        by (subst narrative_loop.simps) (simp add: U A)
    qed
  qed
qed

text \<open>
  C6. The narrative generator emits the round-robin merge by bucket position. Whenever
  it returns, the turn lines it has emitted are as many as the two buckets hold
  together and the separator lines as many as the longer bucket holds; the lines are
  the entries appended to \<open>narrative\<close>, joined by line breaks. On text buckets it
  returns the merge of the specification, where an assistant message longer than 500
  characters is cut to 500 and marked \<open>...\<close> and a user message is never cut.
\<close>

theorem narrative_is_round_robin:
  "(generate_narrative_section str_of d = Some narrative \<longrightarrow>
      (\<exists>lines. narrative_loop str_of d 0 0 [] = Some lines \<and> narrative = join newline lines
        \<and> length (filter is_turn_line lines)
            = length (user_messages d) + length (assistant_messages d)
        \<and> length (filter is_separator_line lines)
            = max (length (user_messages d)) (length (assistant_messages d))))
   \<and> (user_messages d = map JStr us \<and> assistant_messages d = map JStr as \<longrightarrow>
      narrative_loop str_of d 0 0 [] = Some (spec_round_robin us as)
      \<and> generate_narrative_section str_of d = Some (join newline (spec_round_robin us as)))"
proof (intro conjI impI)
  assume "generate_narrative_section str_of d = Some narrative"
  then obtain lines where run: "narrative_loop str_of d 0 0 [] = Some lines"
    and joined: "narrative = join newline lines"
    by (auto simp: generate_narrative_section_def split: option.splits)
  from narrative_loop_counts [OF run] run joined
  show "\<exists>lines. narrative_loop str_of d 0 0 [] = Some lines \<and> narrative = join newline lines
        \<and> length (filter is_turn_line lines)
            = length (user_messages d) + length (assistant_messages d)
        \<and> length (filter is_separator_line lines)
            = max (length (user_messages d)) (length (assistant_messages d))"
    by simp
next
  assume texts: "user_messages d = map JStr us \<and> assistant_messages d = map JStr as"
  then have "narrative_loop str_of d 0 0 [] = Some ([] @ spec_round_robin (drop 0 us) (drop 0 as))"
    by (intro narrative_loop_texts) simp_all
  then show run: "narrative_loop str_of d 0 0 [] = Some (spec_round_robin us as)"
    by simp
  then show "generate_narrative_section str_of d = Some (join newline (spec_round_robin us as))"
    by (simp add: generate_narrative_section_def)
qed

theorem narrative_is_round_robin_witness:
  "(\<exists>lines. narrative_loop (\<lambda>v. [])
       (empty_data\<lparr>user_messages := [JStr ''hi'', JStr ''more''],
          assistant_messages := [JStr (replicate 501 (CHR ''a''))]\<rparr>) 0 0 [] = Some lines
      \<and> ''**User:** hi\<newline>**Assistant:** '' @ replicate 500 (CHR ''a'') @ ''...\<newline>\<newline>**User:** more\<newline>''
          = join newline lines
      \<and> length (filter is_turn_line lines) = 3
      \<and> length (filter is_separator_line lines) = 2)
   \<and> generate_narrative_section (\<lambda>v. [])
       (empty_data\<lparr>user_messages := [JStr ''hi'', JStr ''more''],
          assistant_messages := [JStr (replicate 501 (CHR ''a''))]\<rparr>)
     = Some (join newline (spec_round_robin [''hi'', ''more''] [replicate 501 (CHR ''a'')]))"
  (is "(\<exists>lines. narrative_loop ?f ?d 0 0 [] = Some lines \<and> ?t = join newline lines \<and> _ \<and> _)
    \<and> _")
proof -
  have h1: "generate_narrative_section ?f ?d = Some ?t"
    by code_simp
  have h2: "user_messages ?d = map JStr [''hi'', ''more'']
      \<and> assistant_messages ?d = map JStr [replicate 501 (CHR ''a'')]"
    by simp
  note round_robin =
    narrative_is_round_robin [of ?f ?d ?t "[''hi'', ''more'']" "[replicate 501 (CHR ''a'')]"]
  have l1: "length (user_messages ?d) + length (assistant_messages ?d) = 3"
    and l2: "max (length (user_messages ?d)) (length (assistant_messages ?d)) = 2"
    by simp_all
  from round_robin h1 have "\<exists>lines. narrative_loop ?f ?d 0 0 [] = Some lines
      \<and> ?t = join newline lines
      \<and> length (filter is_turn_line lines)
          = length (user_messages ?d) + length (assistant_messages ?d)
      \<and> length (filter is_separator_line lines)
          = max (length (user_messages ?d)) (length (assistant_messages ?d))"
    by (rule conjunct1 [THEN mp])
  moreover from round_robin h2 have "generate_narrative_section ?f ?d
      = Some (join newline (spec_round_robin [''hi'', ''more''] [replicate 501 (CHR ''a'')]))"
    by (rule conjunct2 [THEN mp, THEN conjunct2])
  ultimately show ?thesis
    by (simp only: l1 l2 simp_thms)
qed

section \<open>The document\<close>

lemma begins_inside_iff:
  "begins_inside sep x \<longleftrightarrow> (\<exists>i<length x. prefix sep (drop i (x @ sep)))"
  by (auto simp: begins_inside_def list_ex_iff)

lemma begins_inside_Cons:
  "begins_inside sep (c # x) \<longleftrightarrow> prefix sep (c # x @ sep) \<or> begins_inside sep x"
proof -
  have "(\<exists>i<Suc (length x). prefix sep (drop i (c # x @ sep)))
      \<longleftrightarrow> prefix sep (c # x @ sep) \<or> (\<exists>i<length x. prefix sep (drop i (x @ sep)))"
    by (simp add: Ex_less_Suc2)
  then show ?thesis
    by (simp add: begins_inside_iff)
qed

lemma prefix_longer:
  assumes "length sep \<le> length u"
  shows "prefix sep (u @ y) \<longleftrightarrow> prefix sep u"
  using assms by (auto simp: prefix_append)

lemma split_first_here:
  "prefix sep s \<Longrightarrow> split_first sep s = Some ([], drop (length sep) s)"
  by (cases s) auto

lemma split_first_found:
  "\<not> begins_inside sep x \<Longrightarrow> split_first sep (x @ sep @ y) = Some (x, y)"
proof (induction x)
  case Nil
  show ?case
    by (simp add: split_first_here)
next
  case (Cons c x)
  from Cons.prems have here: "\<not> prefix sep (c # x @ sep)" and later: "\<not> begins_inside sep x"
    by (simp_all add: begins_inside_Cons)
  have "prefix sep ((c # x @ sep) @ y) \<longleftrightarrow> prefix sep (c # x @ sep)"
    by (rule prefix_longer) simp
  with here have "\<not> prefix sep (c # x @ sep @ y)"
    by simp
  with Cons.IH [OF later] show ?case
    by simp
qed

lemma newline_free_not_inside:
  assumes "c \<notin> set x"
  shows "\<not> begins_inside (c # sep) x"
proof
  assume "begins_inside (c # sep) x"
  then obtain i where i: "i < length x" and p: "prefix (c # sep) (drop i (x @ c # sep))"
    by (auto simp: begins_inside_iff)
  from i have "drop i (x @ c # sep) = x ! i # drop (Suc i) x @ c # sep"
    by (simp add: Cons_nth_drop_Suc)
  with p have "x ! i = c" by simp
  with i assms show False by (metis nth_mem)
qed

lemma strip_suffix_append: "strip_suffix q (n @ q) = Some n"
  by (simp add: strip_suffix_def suffix_def)

lemma markdown_template_marks:
  "markdown_template timestamp current_state decisions narrative
   = head_mark @ (timestamp @ state_mark @ (current_state @ decisions_mark
       @ (decisions @ narrative_mark @ (narrative @ footer_mark))))"
  by (simp add: markdown_template_def head_mark_def state_mark_def decisions_mark_def
      narrative_mark_def footer_mark_def)

lemma overlap_narratives:
  "generate_narrative_section str_of overlap_first
     = Some (''**User:** u\<newline>**Assistant:** '' @ overlap_message @ ''\<newline>'')
   \<and> generate_narrative_section str_of overlap_second
     = Some (''**User:** using'' @ narrative_mark
         @ ''**User:** u\<newline>**Assistant:** '' @ overlap_message @ ''\<newline>'')"
  by code_simp

text \<open>
  C8, as stated, fails. The template inserts the sections as they are, so a section
  that quotes a boundary moves it: the two aggregates \<open>overlap_first\<close> and
  \<open>overlap_second\<close> have different decision lists and different narratives (those of
  \<open>overlap_narratives\<close>), and the same document. Reading the document of the first back
  does not give its sections.
\<close>

theorem sections_not_recovered_counterexample:
  "generate_decisions_section overlap_first = Some (''- '' @ overlap_message)
   \<and> generate_decisions_section overlap_second
     = Some ''- No explicit decisions recorded in this session''
   \<and> ''- '' @ overlap_message \<noteq> ''- No explicit decisions recorded in this session''
   \<and> generate_current_state overlap_first = generate_current_state overlap_second
   \<and> markdown_template ''2025-01-01-1200'' (generate_current_state overlap_first)
       (''- '' @ overlap_message)
       (''**User:** u\<newline>**Assistant:** '' @ overlap_message @ ''\<newline>'')
     = markdown_template ''2025-01-01-1200'' (generate_current_state overlap_second)
       ''- No explicit decisions recorded in this session''
       (''**User:** using'' @ narrative_mark
         @ ''**User:** u\<newline>**Assistant:** '' @ overlap_message @ ''\<newline>'')
   \<and> spec_reparse
       (markdown_template ''2025-01-01-1200'' (generate_current_state overlap_first)
         (''- '' @ overlap_message)
         (''**User:** u\<newline>**Assistant:** '' @ overlap_message @ ''\<newline>''))
     \<noteq> Some (generate_current_state overlap_first, ''- '' @ overlap_message,
         ''**User:** u\<newline>**Assistant:** '' @ overlap_message @ ''\<newline>'')"
  by code_simp

text \<open>
  C8, amended. Reading the sections back at the first occurrence of each boundary
  recovers the status line, the decision list and the narrative exactly, whenever
  no occurrence of a boundary begins inside the part that precedes it: the timestamp,
  the status line and the decision list. The narrative is unrestricted.
\<close>

theorem sections_recovered_when_marks_unambiguous:
  assumes "\<not> begins_inside state_mark timestamp"
    and "\<not> begins_inside decisions_mark current_state"
    and "\<not> begins_inside narrative_mark decisions"
  shows "spec_reparse (markdown_template timestamp current_state decisions narrative)
    = Some (current_state, decisions, narrative)"
  unfolding spec_reparse_def markdown_template_marks
  by (simp only: strip_prefix_append split_first_found [OF assms(1)]
      split_first_found [OF assms(2)] split_first_found [OF assms(3)]
      strip_suffix_append bind.simps prod.case)

theorem sections_recovered_when_marks_unambiguous_witness:
  "spec_reparse (markdown_template ''2025-01-01-1200'' (generate_current_state empty_data)
      ''- chose X\<newline>- decided Y'' ''**User:** hi\<newline>**Assistant:** chose X\<newline>'')
   = Some (generate_current_state empty_data, ''- chose X\<newline>- decided Y'',
       ''**User:** hi\<newline>**Assistant:** chose X\<newline>'')"
proof -
  have h1: "\<not> begins_inside state_mark ''2025-01-01-1200''"
    by code_simp
  have h2: "\<not> begins_inside decisions_mark (generate_current_state empty_data)"
    by code_simp
  have h3: "\<not> begins_inside narrative_mark ''- chose X\<newline>- decided Y''"
    by code_simp
  from sections_recovered_when_marks_unambiguous [OF h1 h2 h3] show ?thesis .
qed

end
